theory Spec2Isabelle
  imports Complex_Main "HOL-Library.AList"
begin

section \<open>Time and durations (Go package time, as used by pkg/auth)\<close>

text \<open>
  A \<open>time.Time\<close> is an instant, counted in nanoseconds from Go's zero Time
  (January 1, year 1, 00:00:00 UTC); the zero Time is the instant \<open>0\<close>.
  A \<open>time.Duration\<close> is an \<open>int64\<close> count of nanoseconds, so the arithmetic that
  pkg/auth does on durations wraps around, and \<open>Time.Sub\<close> saturates at the largest and
  smallest Duration, as the library documents.
\<close>

type_synonym Time = int
type_synonym Duration = int

definition int64 :: "int \<Rightarrow> int" where
  "int64 x = (x + 2 ^ 63) mod 2 ^ 64 - 2 ^ 63"

definition maxDuration :: Duration where
  "maxDuration = 2 ^ 63 - 1"

definition minDuration :: Duration where
  "minDuration = - (2 ^ 63)"

definition Second :: Duration where
  "Second = 1000000000"

definition Hour :: Duration where
  "Hour = 3600 * Second"

definition IsZero :: "Time \<Rightarrow> bool" where
  "IsZero t = (t = 0)"

definition Sub :: "Time \<Rightarrow> Time \<Rightarrow> Duration" where
  "Sub t u =
     (if t - u > maxDuration then maxDuration
      else if t - u < minDuration then minDuration
      else t - u)"

definition Add :: "Time \<Rightarrow> Duration \<Rightarrow> Time" where
  "Add t d = t + d"

section \<open>The session registry of pkg/auth/auth.go\<close>

record userData =
  email :: string
  lastSeen :: Time

text \<open>The row that \<open>Login\<close> selects from the users table.\<close>

record User =
  ID :: string
  CartID :: string
  Username :: string
  Email :: string
  Password :: string

text \<open>
  The struct \<open>session\<close>. \<open>DB\<close> is the users table as the query of \<open>Login\<close> sees
  it: the row whose email column is the key, if the query returns one. \<open>tries\<close> holds
  slices of \<open>struct{}\<close>, of which only the length is ever read.
\<close>

record session =
  DB :: "string \<rightharpoonup> User"
  store :: "string \<rightharpoonup> userData"
  cleaned :: Time
  length_s :: int
  tries :: "string \<rightharpoonup> unit list"
  delay :: "string \<rightharpoonup> Time"

definition NewSession :: "(string \<rightharpoonup> User) \<Rightarrow> Time \<Rightarrow> session" where
  "NewSession db now =
     \<lparr>DB = db, store = Map.empty, cleaned = now, length_s = 0,
      tries = Map.empty, delay = Map.empty\<rparr>"

text \<open>Reading a Go map at a missing key gives the zero value of the element type.\<close>

definition delay_at :: "session \<Rightarrow> string \<Rightarrow> Time" where
  "delay_at s mail = (case delay s mail of None \<Rightarrow> 0 | Some t \<Rightarrow> t)"

definition tries_at :: "session \<Rightarrow> string \<Rightarrow> unit list" where
  "tries_at s mail = (case tries s mail of None \<Rightarrow> [] | Some xs \<Rightarrow> xs)"

subsection \<open>Cookies written to the response\<close>

record Cookie =
  Name :: string
  Value :: string
  Path :: string
  Domain :: string
  Secure :: bool
  HttpOnly :: bool
  SameSite :: int
  MaxAge :: int
  Expires :: "(int \<times> int) option"

definition deleteCookie :: "string \<Rightarrow> Cookie" where
  "deleteCookie name =
     \<lparr>Name = name, Value = ''0'', Path = ''/'', Domain = ''127.0.0.1'', Secure = False,
      HttpOnly = True, SameSite = 0, MaxAge = - 1,
      Expires = Some (1414414788, 1414414788000)\<rparr>"

definition setCookie :: "string \<Rightarrow> string \<Rightarrow> string \<Rightarrow> int \<Rightarrow> Cookie" where
  "setCookie name val path len =
     \<lparr>Name = name, Value = val, Path = path, Domain = ''127.0.0.1'', Secure = False,
      HttpOnly = True, SameSite = 3, MaxAge = len, Expires = None\<rparr>"

subsection \<open>AlreadyLoggedIn\<close>

text \<open>
  The first argument is the value of the request's SID cookie, \<open>None\<close> when
  \<open>r.Cookie\<close> returns an error. The assignment to \<open>cookie.MaxAge\<close> changes the
  request's own cookie object only and is not part of the registry.
\<close>

definition AlreadyLoggedIn :: "string option \<Rightarrow> Time \<Rightarrow> session \<Rightarrow> bool \<times> session" where
  "AlreadyLoggedIn sid now s =
     (case sid of
        None \<Rightarrow> (False, s)
      | Some v \<Rightarrow>
          (case store s v of
             None \<Rightarrow> (False, s)
           | Some user \<Rightarrow> (True, s\<lparr>store := (store s)(v \<mapsto> user\<lparr>lastSeen := now\<rparr>)\<rparr>)))"

subsection \<open>Clean\<close>

text \<open>
  The loop \<open>for key, value := range s.store\<close> visits the keys of the map in an order
  that Go leaves open; \<open>ks\<close> is that order. Every clock reading of one call is taken
  to be the same instant \<open>now\<close>.
\<close>

fun Clean_loop :: "Time \<Rightarrow> string list \<Rightarrow> (string \<rightharpoonup> userData) \<Rightarrow> (string \<rightharpoonup> userData)" where
  "Clean_loop now [] m = m"
| "Clean_loop now (key # ks) m =
     (case m key of
        None \<Rightarrow> Clean_loop now ks m
      | Some val \<Rightarrow>
          (if Sub now (lastSeen val) > Hour * 120
           then Clean_loop now ks (m(key := None))
           else Clean_loop now ks m))"

definition Clean :: "string list \<Rightarrow> Time \<Rightarrow> session \<Rightarrow> session" where
  "Clean ks now s = s\<lparr>store := Clean_loop now ks (store s), cleaned := now\<rparr>"

subsection \<open>loginDelay\<close>

text \<open>
  \<open>d := len(s.tries[email]) * 2\<close> is an \<open>int\<close> product (64 bits wide, as on the
  64-bit platforms) and \<open>time.Second * time.Duration(d)\<close> an \<open>int64\<close> product: both
  wrap around.
\<close>

definition loginDelay :: "Time \<Rightarrow> string \<Rightarrow> session \<Rightarrow> session" where
  "loginDelay now mail s =
     (let ts = tries_at s mail @ [()];
          d = int64 (int (length ts) * 2)
      in s\<lparr>tries := (tries s)(mail \<mapsto> ts),
            delay := (delay s)(mail \<mapsto> Add now (int64 (Second * d)))\<rparr>)"

subsection \<open>Login\<close>

text \<open>
  What \<open>Login\<close> takes from outside the registry: the password check of bcrypt
  (\<open>True\<close> when \<open>CompareHashAndPassword\<close> returns no error), the package's list of
  administrators, the random strings of \<open>token.GenerateRunes\<close> (the n-th call of one
  \<open>Login\<close>, with the length asked for) and \<open>token.GenerateFixedJWT\<close> (\<open>None\<close> when it
  returns an error). The clock readings of one call of \<open>Login\<close> are taken to be the same
  instant \<open>now\<close>.
\<close>

record deps =
  CompareHashAndPassword :: "string \<Rightarrow> string \<Rightarrow> bool"
  AdminList :: "string list"
  GenerateRunes :: "nat \<Rightarrow> nat \<Rightarrow> string"
  GenerateFixedJWT :: "string \<Rightarrow> string option"

datatype login_error =
    PleaseWait Duration
  | InvalidEmailOrPassword
  | FailedGeneratingJWT

text \<open>The guard at the head of \<open>Login\<close>: the login of \<open>mail\<close> is refused for now.\<close>

definition throttled :: "Time \<Rightarrow> string \<Rightarrow> session \<Rightarrow> bool" where
  "throttled now mail s \<longleftrightarrow> \<not> IsZero (delay_at s mail) \<and> Sub (delay_at s mail) now > 0"

fun admin_cookies :: "deps \<Rightarrow> string list \<Rightarrow> string \<Rightarrow> int \<Rightarrow> nat \<Rightarrow> Cookie list \<times> nat" where
  "admin_cookies D [] ue len i = ([], i)"
| "admin_cookies D (admin # rest) ue len i =
     (if admin = ue
      then (let admID = GenerateRunes D i 8;
                (cs, j) = admin_cookies D rest ue len (Suc i)
            in (setCookie ''AID'' admID ''/'' len # cs, j))
      else admin_cookies D rest ue len i)"

definition Login ::
  "deps \<Rightarrow> Time \<Rightarrow> string \<Rightarrow> string \<Rightarrow> session \<Rightarrow> login_error option \<times> Cookie list \<times> session" where
  "Login D now mail password s =
     (if throttled now mail s
      then (Some (PleaseWait (Sub (delay_at s mail) now)), [], s)
      else
        (case DB s mail of
           None \<Rightarrow> (Some InvalidEmailOrPassword, [], loginDelay now mail s)
         | Some user \<Rightarrow>
             (if \<not> CompareHashAndPassword D (Password user) password
              then (Some InvalidEmailOrPassword, [], loginDelay now mail s)
              else
                (let (adm, i) = admin_cookies D (AdminList D) (Email user) (length_s s) 0;
                     sID = GenerateRunes D i 27;
                     w = adm @ [setCookie ''SID'' sID ''/'' (length_s s)];
                     s' = s\<lparr>store := (store s)(sID \<mapsto> \<lparr>email = Email user, lastSeen = now\<rparr>),
                            tries := (tries s)(mail := None),
                            delay := (delay s)(mail := None)\<rparr>
                 in (case GenerateFixedJWT D (ID user) of
                       None \<Rightarrow> (Some FailedGeneratingJWT, w, s')
                     | Some userID \<Rightarrow>
                         (None,
                          w @ [setCookie ''UID'' userID ''/'' (length_s s),
                               setCookie ''CID'' (CartID user) ''/'' (length_s s)],
                          s'))))))"

subsection \<open>Logout\<close>

text \<open>
  \<open>aid\<close> says whether the request carries an AID cookie; \<open>c\<close> is the value of the
  cookie that the caller passes, \<open>None\<close> for a nil pointer, at which \<open>c.Value\<close>
  panics. The result holds the cookies written, whether \<open>go s.Clean()\<close> was started,
  and the registry as \<open>Logout\<close> itself leaves it; the sweep it starts is a \<open>Clean\<close>
  of its own.
\<close>

datatype panic = NilPointerDereference

definition Logout ::
  "bool \<Rightarrow> string option \<Rightarrow> Time \<Rightarrow> session \<Rightarrow> panic + (Cookie list \<times> bool \<times> session)" where
  "Logout aid c now s =
     (let w = (if aid then [deleteCookie ''AID''] else [])
              @ [deleteCookie ''SID'', deleteCookie ''UID'', deleteCookie ''CID'']
      in (case c of
            None \<Rightarrow> Inl NilPointerDereference
          | Some v \<Rightarrow>
              Inr (w, Sub now (cleaned s) > Second * 30, s\<lparr>store := (store s)(v := None)\<rparr>)))"

subsection \<open>Runs of the registry\<close>

text \<open>\<open>loginDelay\<close> called for \<open>mail\<close> once at each instant of the list, in order.\<close>

fun record_failures :: "Time list \<Rightarrow> string \<Rightarrow> session \<Rightarrow> session" where
  "record_failures [] mail s = s"
| "record_failures (t # ts) mail s = record_failures ts mail (loginDelay t mail s)"

text \<open>
  A \<open>Time\<close> counts the seconds from the zero Time in an \<open>int64\<close>, so the instants it
  can hold lie before \<open>maxTime\<close>; a clock reads none before the zero Time.
\<close>

definition maxTime :: Time where
  "maxTime = 2 ^ 63 * Second"

definition valid_time :: "Time \<Rightarrow> bool" where
  "valid_time t \<longleftrightarrow> 0 \<le> t \<and> t < maxTime"

text \<open>
  Calls of \<open>Login\<close> for \<open>mail\<close>, one after the other, each with its own surroundings,
  clock reading and password, and each returning "invalid email or password"; \<open>None\<close>
  when one of them ends otherwise.
\<close>

fun failed_logins :: "(deps \<times> Time \<times> string) list \<Rightarrow> string \<Rightarrow> session \<Rightarrow> session option" where
  "failed_logins [] mail s = Some s"
| "failed_logins ((D, t, password) # rest) mail s =
     (let (err, w, s') = Login D t mail password s
      in if err = Some InvalidEmailOrPassword then failed_logins rest mail s' else None)"

text \<open>
  After k failures in a row that \<open>Login\<close> let through, the deadline is at least
  2 + 4 + ... + 2k seconds after the zero Time.
\<close>

definition paced :: "session \<Rightarrow> string \<Rightarrow> bool" where
  "paced s mail \<longleftrightarrow>
     (if tries_at s mail = [] then delay s mail = None
      else \<exists>dl. delay s mail = Some dl \<and>
             int (length (tries_at s mail)) * (int (length (tries_at s mail)) + 1) * Second \<le> dl)"

text \<open>
  The registries that a server can hold: a new one, and what the operations of the
  interface \<open>Session\<close> make of one, while the users table changes at will.
\<close>

inductive reachable :: "session \<Rightarrow> bool" where
  new: "reachable (NewSession db now)"
| db: "reachable s \<Longrightarrow> reachable (s\<lparr>DB := db\<rparr>)"
| logged: "reachable s \<Longrightarrow> reachable (snd (AlreadyLoggedIn sid now s))"
| clean: "reachable s \<Longrightarrow> set ks = dom (store s) \<Longrightarrow> reachable (Clean ks now s)"
| login: "reachable s \<Longrightarrow> reachable (snd (snd (Login D now mail password s)))"
| logout: "reachable s \<Longrightarrow> Logout aid c now s = Inr (w, sweep, s') \<Longrightarrow> reachable s'"

text \<open>An identity with a deadline has at least one recorded failure.\<close>

definition throttle_inv :: "session \<Rightarrow> bool" where
  "throttle_inv s \<longleftrightarrow> (\<forall>mail. delay s mail \<noteq> None \<longrightarrow> tries_at s mail \<noteq> [])"

subsection \<open>The lock of the registry\<close>

text \<open>
  What one call of an operation does with the mutex of the registry and with the fields
  that some operation writes (\<open>store\<close>, \<open>cleaned\<close>, \<open>tries\<close>, \<open>delay\<close>), statement by
  statement, in the order of the source. \<open>DB\<close> and \<open>length\<close> are set by \<open>NewSession\<close>
  and only read afterwards. \<open>GoClean\<close> is the statement \<open>go s.Clean()\<close>.
\<close>

datatype field = StoreField | CleanedField | TriesField | DelayField

datatype event = Lock | Unlock | Read field | Write field | GoClean

text \<open>Every read and every write of a field happens while the lock is held.\<close>

fun guarded_from :: "bool \<Rightarrow> event list \<Rightarrow> bool" where
  "guarded_from held [] = True"
| "guarded_from held (Lock # es) = guarded_from True es"
| "guarded_from held (Unlock # es) = guarded_from False es"
| "guarded_from held (Read f # es) = (held \<and> guarded_from held es)"
| "guarded_from held (Write f # es) = (held \<and> guarded_from held es)"
| "guarded_from held (GoClean # es) = guarded_from held es"

definition guarded :: "event list \<Rightarrow> bool" where
  "guarded es = guarded_from False es"

text \<open>\<open>AlreadyLoggedIn\<close>: \<open>s.Lock()\<close>, the deferred \<open>s.Unlock()\<close>, and the store between them.\<close>

definition AlreadyLoggedIn_events :: "string option \<Rightarrow> session \<Rightarrow> event list" where
  "AlreadyLoggedIn_events sid s =
     (case sid of
        None \<Rightarrow> []
      | Some v \<Rightarrow>
          [Lock, Read StoreField]
          @ (case store s v of None \<Rightarrow> [] | Some user \<Rightarrow> [Write StoreField])
          @ [Unlock])"

text \<open>
  \<open>Clean\<close>: the loop reads the store at each key and deletes the expired entries, then
  \<open>s.cleaned\<close> is written; the function calls neither \<open>Lock\<close> nor \<open>Unlock\<close>.
\<close>

fun Clean_loop_events :: "Time \<Rightarrow> string list \<Rightarrow> (string \<rightharpoonup> userData) \<Rightarrow> event list" where
  "Clean_loop_events now [] m = []"
| "Clean_loop_events now (key # ks) m =
     (case m key of
        None \<Rightarrow> Clean_loop_events now ks m
      | Some val \<Rightarrow>
          (if Sub now (lastSeen val) > Hour * 120
           then Read StoreField # Write StoreField # Clean_loop_events now ks (m(key := None))
           else Read StoreField # Clean_loop_events now ks m))"

definition Clean_events :: "string list \<Rightarrow> Time \<Rightarrow> session \<Rightarrow> event list" where
  "Clean_events ks now s = Clean_loop_events now ks (store s) @ [Write CleanedField]"

text \<open>\<open>loginDelay\<close>: the whole body is between \<open>s.Lock()\<close> and the deferred \<open>s.Unlock()\<close>.\<close>

definition loginDelay_events :: "event list" where
  "loginDelay_events =
     [Lock, Read TriesField, Write TriesField, Read TriesField, Write DelayField, Unlock]"

text \<open>
  \<open>Login\<close>: the guard reads \<open>s.delay[email]\<close> before any lock is taken (a second time
  when the deadline is not the zero Time, a third time for the message); the writes of a
  successful login are between \<open>s.Lock()\<close> and \<open>s.Unlock()\<close>.
\<close>

definition Login_events :: "deps \<Rightarrow> Time \<Rightarrow> string \<Rightarrow> string \<Rightarrow> session \<Rightarrow> event list" where
  "Login_events D now mail password s =
     (let guard = Read DelayField # (if IsZero (delay_at s mail) then [] else [Read DelayField])
      in if throttled now mail s
         then guard @ [Read DelayField]
         else
           (case DB s mail of
              None \<Rightarrow> guard @ loginDelay_events
            | Some user \<Rightarrow>
                (if \<not> CompareHashAndPassword D (Password user) password
                 then guard @ loginDelay_events
                 else guard @ [Lock, Write StoreField, Write TriesField, Write DelayField, Unlock])))"

text \<open>
  \<open>Logout\<close>: the delete is between \<open>s.Lock()\<close> and \<open>s.Unlock()\<close>; \<open>s.cleaned\<close> is
  read after the lock is released. At a nil cookie the call panics with the lock taken.
\<close>

definition Logout_events :: "string option \<Rightarrow> Time \<Rightarrow> session \<Rightarrow> event list" where
  "Logout_events c now s =
     (case c of
        None \<Rightarrow> [Lock]
      | Some v \<Rightarrow>
          [Lock, Write StoreField, Unlock, Read CleanedField]
          @ (if Sub now (cleaned s) > Second * 30 then [GoClean] else []))"

text \<open>
  A server: its registry, and the number of sweeps that \<open>go s.Clean()\<close> has started and
  that have not come to their end. \<open>Clean\<close> writes \<open>s.cleaned\<close> as its last statement,
  so while no sweep has ended the registry is as the calls of \<open>Logout\<close> leave it.
\<close>

record server =
  registry :: session
  in_flight :: nat

definition serve_Logout :: "bool \<Rightarrow> string option \<Rightarrow> Time \<Rightarrow> server \<Rightarrow> server" where
  "serve_Logout aid c now sv =
     (case Logout aid c now (registry sv) of
        Inl p \<Rightarrow> sv
      | Inr (w, sweep, s') \<Rightarrow>
          \<lparr>registry = s', in_flight = (if sweep then Suc (in_flight sv) else in_flight sv)\<rparr>)"

section \<open>The handler CartAdd\<close>

text \<open>
  The handler of the route that adds a product to a cart. Its arguments: the decoded
  request body (\<open>Inl\<close> the error of the JSON decoder), the pair that \<open>strconv.Atoi\<close>
  returns for the route variable \<open>amount\<close> (the number, and the error if any), the
  conversion \<open>float32\<close>, the method \<open>Add\<close> of package shopping, and the cart. The result
  is the list of responses written, in order, and the cart afterwards. After a failed
  \<open>Atoi\<close> the handler writes an error and goes on.
\<close>

datatype 'c response = ResponseError nat string | ResponseJSON nat 'c

definition CartAdd ::
  "string + 'p \<Rightarrow> int \<times> string option \<Rightarrow> (int \<Rightarrow> real) \<Rightarrow> ('p \<Rightarrow> real \<Rightarrow> 'c \<Rightarrow> 'c) \<Rightarrow> 'c
     \<Rightarrow> 'c response list \<times> 'c" where
  "CartAdd body atoi float32 cart_Add cart =
     (case body of
        Inl err \<Rightarrow> ([ResponseError 400 err], cart)
      | Inr product \<Rightarrow>
          (let (q, err) = atoi;
               w = (if err \<noteq> None
                    then [ResponseError 400 ''Amount inserted is not valid, integers accepted only'']
                    else []);
               quantity = float32 q
           in if quantity = 0
              then (w @ [ResponseError 400 ''Please insert a valid amount''], cart)
              else (let cart' = cart_Add product quantity cart
                    in (w @ [ResponseJSON 200 cart'], cart'))))"

section \<open>The cart aggregate\<close>














subsection \<open>Sequences of cart operations\<close>









section \<open>Example inputs\<close>

definition example_user :: User where
  "example_user =
     \<lparr>ID = ''7'', CartID = ''c7'', Username = ''ann'', Email = ''a@x.com'',
      Password = ''hash''\<rparr>"

definition example_deps :: deps where
  "example_deps =
     \<lparr>CompareHashAndPassword = (\<lambda>h p. h = ''hash'' \<and> p = ''secret''),
      AdminList = [],
      GenerateRunes = (\<lambda>i n. replicate n (CHR ''r'')),
      GenerateFixedJWT = (\<lambda>uid. Some (''jwt-'' @ uid))\<rparr>"

definition example_session :: session where
  "example_session =
     \<lparr>DB = [''a@x.com'' \<mapsto> example_user],
      store = [''t1'' \<mapsto> \<lparr>email = ''a@x.com'', lastSeen = 0\<rparr>,
               ''t2'' \<mapsto> \<lparr>email = ''b@x.com'', lastSeen = 500 * Hour\<rparr>],
      cleaned = 0, length_s = 0, tries = Map.empty, delay = Map.empty\<rparr>"

definition example_attempts :: "(deps \<times> Time \<times> string) list" where
  "example_attempts = [(example_deps, Second, ''guess''), (example_deps, 5 * Second, ''guess'')]"





section \<open>Facts about durations\<close>

lemma int64_id: "0 \<le> x \<Longrightarrow> x < 2 ^ 63 \<Longrightarrow> int64 x = x"
  by (simp add: int64_def)

lemma Sub_pos: "Sub t u > 0 \<longleftrightarrow> u < t"
  by (auto simp: Sub_def maxDuration_def minDuration_def)

lemma Sub_gt: "0 \<le> d \<Longrightarrow> d < maxDuration \<Longrightarrow> Sub t u > d \<longleftrightarrow> t - u > d"
  by (auto simp: Sub_def maxDuration_def minDuration_def)

section \<open>The login throttle\<close>

lemma throttle_inv_cong:
  "throttle_inv s \<Longrightarrow> tries s' = tries s \<Longrightarrow> delay s' = delay s \<Longrightarrow> throttle_inv s'"
  by (simp add: throttle_inv_def tries_at_def)

lemma throttle_inv_loginDelay: "throttle_inv s \<Longrightarrow> throttle_inv (loginDelay now mail s)"
  by (auto simp: throttle_inv_def loginDelay_def Let_def tries_at_def)

lemma throttle_inv_Login:
  "throttle_inv s \<Longrightarrow> throttle_inv (snd (snd (Login D now mail password s)))"
  by (auto simp: Login_def Let_def throttle_inv_loginDelay split: option.splits prod.splits)
     (auto simp: throttle_inv_def tries_at_def)

lemma reachable_throttle_inv: "reachable s \<Longrightarrow> throttle_inv s"
proof (induction rule: reachable.induct)
  case (new db now)
  then show ?case by (simp add: throttle_inv_def NewSession_def)
next
  case (db s db)
  from db.IH show ?case by (rule throttle_inv_cong) simp_all
next
  case (logged s sid now)
  from logged.IH show ?case
    by (rule throttle_inv_cong) (simp_all add: AlreadyLoggedIn_def split: option.splits)
next
  case (clean s ks now)
  from clean.IH show ?case by (rule throttle_inv_cong) (simp_all add: Clean_def)
next
  case (login s D now mail password)
  from login.IH show ?case by (rule throttle_inv_Login)
next
  case (logout s aid c now w sweep s')
  from logout.hyps(2) obtain v where "s' = s\<lparr>store := (store s)(v := None)\<rparr>"
    by (auto simp: Logout_def Let_def split: option.splits)
  with logout.IH show ?case by (auto intro: throttle_inv_cong)
qed

lemma tries_at_loginDelay: "tries_at (loginDelay t mail s) mail = tries_at s mail @ [()]"
  by (simp add: loginDelay_def Let_def tries_at_def)

lemma delay_loginDelay:
  "delay (loginDelay t mail s) mail =
     Some (Add t (int64 (Second * int64 (int (Suc (length (tries_at s mail))) * 2))))"
  by (simp add: loginDelay_def Let_def)

lemma tries_at_record_failures:
  "tries_at (record_failures ts mail s) mail = tries_at s mail @ replicate (length ts) ()"
proof (induction ts arbitrary: s)
  case Nil
  then show ?case by simp
next
  case (Cons t ts)
  then show ?case by (simp add: tries_at_loginDelay replicate_app_Cons_same)
qed

lemma delay_record_failures:
  "ts \<noteq> [] \<Longrightarrow>
   delay (record_failures ts mail s) mail =
     Some (Add (last ts)
            (int64 (Second * int64 (int (length (tries_at s mail) + length ts) * 2))))"
proof (induction ts arbitrary: s)
  case Nil
  then show ?case by simp
next
  case (Cons t ts)
  show ?case
  proof (cases "ts = []")
    case True
    then show ?thesis by (simp add: delay_loginDelay)
  next
    case False
    with Cons.IH [of "loginDelay t mail s"] show ?thesis
      by (simp add: tries_at_loginDelay)
  qed
qed

lemma failed_Login:
  assumes "Login D t mail password s = (Some InvalidEmailOrPassword, w, s')"
  shows "\<not> throttled t mail s \<and> s' = loginDelay t mail s"
  using assms
  by (auto simp: Login_def Let_def split: if_splits option.splits prod.splits)

lemma no_overflow_arith:
  fixes k :: int
  assumes "0 \<le> k" and "k * (k + 1) < 2 ^ 63"
  shows "2 * (k + 1) * 1000000000 < (2 ^ 63 :: int)"
proof (cases "k < 2000000000")
  case True
  then have "2 * (k + 1) * 1000000000 \<le> 2 * 2000000000 * (1000000000::int)" by simp
  also have "\<dots> < 2 ^ 63" by simp
  finally show ?thesis .
next
  case False
  then have "2000000000 * (k + 1) \<le> k * (k + 1)"
    using assms(1) by (intro mult_right_mono) auto
  with assms(2) show ?thesis by simp
qed

lemma paced_step:
  assumes "paced s mail" and "\<not> throttled t mail s" and "valid_time t"
  shows "delay (loginDelay t mail s) mail
           = Some (t + int (Suc (length (tries_at s mail))) * (2 * Second)) \<and>
         paced (loginDelay t mail s) mail"
proof -
  let ?k = "int (length (tries_at s mail))"
  have sec: "Second = 1000000000" by (simp add: Second_def)
  have t: "0 \<le> t" "t < 2 ^ 63 * Second" using assms(3) by (simp_all add: valid_time_def maxTime_def)
  have low: "?k * (?k + 1) * Second \<le> t"
  proof (cases "tries_at s mail = []")
    case True
    with t show ?thesis by simp
  next
    case False
    with assms(1) obtain dl where dl: "delay s mail = Some dl" "?k * (?k + 1) * Second \<le> dl"
      by (auto simp: paced_def)
    from False have "0 < ?k" by simp
    then have "0 < ?k * (?k + 1) * Second" by (simp add: sec)
    with dl have "0 < dl" by linarith
    with assms(2) dl have "dl \<le> t"
      by (simp add: throttled_def delay_at_def IsZero_def Sub_pos)
    with dl show ?thesis by linarith
  qed
  with t have "?k * (?k + 1) * Second < 2 ^ 63 * Second" by linarith
  then have "?k * (?k + 1) < 2 ^ 63" by (simp add: sec)
  then have b: "2 * (?k + 1) * 1000000000 < (2 ^ 63 :: int)"
    by (intro no_overflow_arith) auto
  then have b1: "(?k + 1) * 2 < 2 ^ 63" by simp
  have d: "int64 ((?k + 1) * 2) = (?k + 1) * 2"
    using b1 by (intro int64_id) auto
  have e: "int64 (Second * ((?k + 1) * 2)) = (?k + 1) * (2 * Second)"
    using b by (subst int64_id) (auto simp: sec)
  have dl': "delay (loginDelay t mail s) mail = Some (t + (?k + 1) * (2 * Second))"
    using d e by (simp add: delay_loginDelay Add_def add.commute)
  have "(?k + 1) * (?k + 2) * Second = ?k * (?k + 1) * Second + (?k + 1) * (2 * Second)"
    by (simp add: algebra_simps)
  with low have "(?k + 1) * (?k + 2) * Second \<le> t + (?k + 1) * (2 * Second)" by linarith
  then have "paced (loginDelay t mail s) mail"
    by (simp add: paced_def tries_at_loginDelay dl' add.commute)
  with dl' show ?thesis by (simp add: add.commute)
qed

lemma failed_logins_paced:
  assumes "paced s mail" and "failed_logins as mail s = Some s'"
    and "\<forall>a \<in> set as. valid_time (fst (snd a))"
  shows "s' = record_failures (map (\<lambda>a. fst (snd a)) as) mail s \<and> paced s' mail \<and>
         (as \<noteq> [] \<longrightarrow>
            delay s' mail = Some (fst (snd (last as))
              + int (length (tries_at s mail) + length as) * (2 * Second)))"
  using assms
proof (induction as arbitrary: s)
  case Nil
  then show ?case by simp
next
  case (Cons a rest)
  obtain D t password where a: "a = (D, t, password)" by (cases a)
  obtain err w s1 where L: "Login D t mail password s = (err, w, s1)"
    by (cases "Login D t mail password s")
  from Cons.prems(2) a L have err: "err = Some InvalidEmailOrPassword"
    and rest: "failed_logins rest mail s1 = Some s'"
    by (auto split: if_splits)
  from failed_Login L err have nt: "\<not> throttled t mail s" and s1: "s1 = loginDelay t mail s"
    by blast+
  from Cons.prems(3) a have vt: "valid_time t" by simp
  from paced_step [OF Cons.prems(1) nt vt]
  have dl: "delay s1 mail = Some (t + int (Suc (length (tries_at s mail))) * (2 * Second))"
    and p1: "paced s1 mail" by (simp_all add: s1)
  from Cons.prems(3) have "\<forall>a \<in> set rest. valid_time (fst (snd a))" by simp
  from Cons.IH [OF p1 rest this]
  have ih: "s' = record_failures (map (\<lambda>a. fst (snd a)) rest) mail s1" "paced s' mail"
    "rest \<noteq> [] \<longrightarrow> delay s' mail = Some (fst (snd (last rest))
              + int (length (tries_at s1 mail) + length rest) * (2 * Second))"
    by blast+
  have len: "length (tries_at s1 mail) = Suc (length (tries_at s mail))"
    by (simp add: s1 tries_at_loginDelay)
  show ?case
  proof (cases "rest = []")
    case True
    with rest have "s' = s1" by simp
    with True a dl ih s1 show ?thesis by simp
  next
    case False
    with ih a s1 len show ?thesis by simp
  qed
qed


text \<open>
  Claim C2. In a registry that the operations can produce, an identity with no recorded
  failure is never refused by the guard of \<open>Login\<close>. After \<open>loginDelay\<close> has then been
  called for it n times in a row (n at least 1, the last call at an instant \<open>last ts\<close>
  not before the zero Time, and n small enough for 2n seconds to be an \<open>int64\<close> count of
  nanoseconds), the guard refuses the identity at exactly the instants before \<open>last ts\<close>
  plus n times 2 seconds: the waits are 2, 4, 6, ... seconds, and once the wait has passed
  the guard lets the identity through. When the n failures are those of n calls of
  \<open>Login\<close> in a row, at instants that a \<open>Time\<close> can hold, the same is true for every n:
  the guard spaces the failures so far apart that the product never wraps around.
\<close>

theorem login_backoff_linear:
  assumes "reachable s" and "tries_at s mail = []"
  shows "\<not> throttled now mail s \<and>
    (\<forall>ts. ts \<noteq> [] \<and> 0 \<le> last ts \<and> int (length ts) * 2 * Second < 2 ^ 63 \<longrightarrow>
       (throttled now mail (record_failures ts mail s)
          \<longleftrightarrow> now < last ts + int (length ts) * (2 * Second))) \<and>
    (\<forall>as s'. as \<noteq> [] \<and> (\<forall>a \<in> set as. valid_time (fst (snd a))) \<and>
         failed_logins as mail s = Some s' \<longrightarrow>
       s' = record_failures (map (\<lambda>a. fst (snd a)) as) mail s \<and>
       (throttled now mail s'
          \<longleftrightarrow> now < fst (snd (last as)) + int (length as) * (2 * Second)))"
proof (intro conjI allI impI)
  from assms(1) have "throttle_inv s" by (rule reachable_throttle_inv)
  with assms(2) have none: "delay s mail = None"
    by (auto simp: throttle_inv_def)
  then show "\<not> throttled now mail s"
    by (simp add: throttled_def delay_at_def IsZero_def)
  from none assms(2) have p: "paced s mail" by (simp add: paced_def)
  have sec: "Second = 1000000000" by (simp add: Second_def)
  {
    fix ts :: "Time list"
    assume "ts \<noteq> [] \<and> 0 \<le> last ts \<and> int (length ts) * 2 * Second < 2 ^ 63"
    then have ne: "ts \<noteq> []" and pos: "0 \<le> last ts"
      and bound: "int (length ts) * 2 * Second < 2 ^ 63" by simp_all
    let ?n = "int (length ts)"
    have n_pos: "0 < ?n" using ne by simp
    have "?n * 2 < 2 ^ 63" using bound n_pos by (simp add: sec)
    then have d: "int64 (?n * 2) = ?n * 2" using n_pos by (intro int64_id) auto
    have e: "int64 (Second * (?n * 2)) = ?n * (2 * Second)"
      using bound n_pos by (subst int64_id) (auto simp: sec)
    have dl: "delay (record_failures ts mail s) mail = Some (last ts + ?n * (2 * Second))"
      using delay_record_failures [OF ne, of mail s] assms(2) by (simp add: d e Add_def)
    have "0 < ?n * (2 * Second)" using n_pos by (simp add: sec)
    with pos have "0 < last ts + ?n * (2 * Second)" by linarith
    then show "throttled now mail (record_failures ts mail s)
          \<longleftrightarrow> now < last ts + int (length ts) * (2 * Second)"
      by (simp add: throttled_def delay_at_def dl IsZero_def Sub_pos)
  }
  {
    fix as :: "(deps \<times> Time \<times> string) list" and s'
    assume "as \<noteq> [] \<and> (\<forall>a \<in> set as. valid_time (fst (snd a))) \<and>
         failed_logins as mail s = Some s'"
    then have ne: "as \<noteq> []" and vt: "\<forall>a \<in> set as. valid_time (fst (snd a))"
      and run: "failed_logins as mail s = Some s'" by simp_all
    from failed_logins_paced [OF p run vt] ne assms(2)
    have eq: "s' = record_failures (map (\<lambda>a. fst (snd a)) as) mail s"
      and dl: "delay s' mail = Some (fst (snd (last as)) + int (length as) * (2 * Second))"
      by auto
    from eq show "s' = record_failures (map (\<lambda>a. fst (snd a)) as) mail s" .
    from ne vt have "0 \<le> fst (snd (last as))" by (simp add: valid_time_def)
    moreover have "0 < int (length as) * (2 * Second)" using ne by (simp add: sec)
    ultimately have "0 < fst (snd (last as)) + int (length as) * (2 * Second)" by linarith
    then show "throttled now mail s'
          \<longleftrightarrow> now < fst (snd (last as)) + int (length as) * (2 * Second)"
      by (simp add: throttled_def delay_at_def dl IsZero_def Sub_pos)
  }
qed

theorem login_backoff_linear_witness:
  "reachable (NewSession (DB example_session) 0) \<and>
   tries_at (NewSession (DB example_session) 0) ''a@x.com'' = [] \<and>
   \<not> throttled 7 ''a@x.com'' (NewSession (DB example_session) 0) \<and>
   throttled (8 * Second) ''a@x.com''
     (record_failures [Second, 5 * Second] ''a@x.com'' (NewSession (DB example_session) 0)) \<and>
   \<not> throttled (9 * Second) ''a@x.com''
     (record_failures [Second, 5 * Second] ''a@x.com'' (NewSession (DB example_session) 0)) \<and>
   failed_logins example_attempts ''a@x.com'' (NewSession (DB example_session) 0)
     = Some (record_failures [Second, 5 * Second] ''a@x.com'' (NewSession (DB example_session) 0))"
proof -
  let ?s = "NewSession (DB example_session) 0"
  let ?ts = "[Second, 5 * Second]"
  let ?s' = "record_failures ?ts ''a@x.com'' ?s"
  have r: "reachable ?s" by (rule reachable.new)
  have t: "tries_at ?s ''a@x.com'' = []" by (simp add: NewSession_def tries_at_def)
  have h: "?ts \<noteq> [] \<and> 0 \<le> last ?ts \<and> int (length ?ts) * 2 * Second < 2 ^ 63"
    by (simp add: Second_def)
  have run: "failed_logins example_attempts ''a@x.com'' ?s = Some ?s'"
    by (simp add: example_attempts_def Login_def throttled_def delay_at_def IsZero_def Sub_def
        maxDuration_def minDuration_def loginDelay_def tries_at_def Let_def NewSession_def
        example_session_def example_user_def example_deps_def int64_def Add_def Second_def)
  have g: "example_attempts \<noteq> [] \<and> (\<forall>a \<in> set example_attempts. valid_time (fst (snd a))) \<and>
      failed_logins example_attempts ''a@x.com'' ?s = Some ?s'"
    using run by (simp add: example_attempts_def valid_time_def maxTime_def Second_def)
  from login_backoff_linear [OF r t, of 7] have a: "\<not> throttled 7 ''a@x.com'' ?s" by simp
  from login_backoff_linear [OF r t, of "8 * Second"] h
  have b: "throttled (8 * Second) ''a@x.com'' ?s'
             \<longleftrightarrow> 8 * Second < last ?ts + int (length ?ts) * (2 * Second)" by blast
  from login_backoff_linear [OF r t, of "9 * Second"] g
  have c: "throttled (9 * Second) ''a@x.com'' ?s'
             \<longleftrightarrow> 9 * Second < fst (snd (last example_attempts))
                   + int (length example_attempts) * (2 * Second)" by blast
  from b have b': "throttled (8 * Second) ''a@x.com'' ?s'"
    by (simp add: Second_def)
  from c have c': "\<not> throttled (9 * Second) ''a@x.com'' ?s'"
    by (simp add: Second_def example_attempts_def)
  from r t a b' c' run show ?thesis by simp
qed

section \<open>The expiry sweep\<close>

lemma Clean_loop_lookup:
  "Clean_loop now ks m k =
     (if k \<in> set ks
      then (case m k of
              None \<Rightarrow> None
            | Some v \<Rightarrow> if Sub now (lastSeen v) > Hour * 120 then None else Some v)
      else m k)"
  by (induction ks arbitrary: m) (auto split: option.splits)

text \<open>
  Claim C3. When the loop of \<open>Clean\<close> visits the keys of the store, then for the idle
  limit of 120 hours that the code fixes, the store afterwards has no entry at a token
  whose last activity is older than \<open>now\<close> minus 120 hours, and at every other token it
  has the entry it had, with the same identity and the same last activity (and none where
  there was none).
\<close>

theorem Clean_removes_exactly_expired:
  assumes "set ks = dom (store s)"
  shows "store (Clean ks now s) k =
     (case store s k of
        None \<Rightarrow> None
      | Some v \<Rightarrow> if lastSeen v < now - 120 * Hour then None else Some v)"
proof -
  have hr: "(0::int) \<le> Hour * 120" "Hour * 120 < maxDuration"
    by (simp_all add: Hour_def Second_def maxDuration_def)
  have exp: "Sub now t > Hour * 120 \<longleftrightarrow> t < now - 120 * Hour" for t
    using Sub_gt [OF hr, of now t] by auto
  show ?thesis
  proof (cases "store s k")
    case None
    then show ?thesis by (simp add: Clean_def Clean_loop_lookup)
  next
    case (Some v)
    then have "k \<in> set ks" using assms by auto
    with Some show ?thesis by (simp add: Clean_def Clean_loop_lookup exp)
  qed
qed

theorem Clean_removes_exactly_expired_witness:
  "set [''t1'', ''t2''] = dom (store example_session) \<and>
   store (Clean [''t1'', ''t2''] (500 * Hour) example_session) ''t1'' = None \<and>
   store (Clean [''t1'', ''t2''] (500 * Hour) example_session) ''t2''
     = Some \<lparr>email = ''b@x.com'', lastSeen = 500 * Hour\<rparr>"
proof -
  have h: "set [''t1'', ''t2''] = dom (store example_session)"
    by (auto simp: example_session_def)
  from Clean_removes_exactly_expired [OF h, of "500 * Hour" "''t1''"]
    Clean_removes_exactly_expired [OF h, of "500 * Hour" "''t2''"] h
  show ?thesis by (simp add: example_session_def Hour_def Second_def)
qed

section \<open>Login\<close>

text \<open>
  Claim C4. A \<open>Login\<close> that returns no error leaves neither a slice of tries nor a
  deadline for the identity it logged in (both map entries are deleted), so the guard of
  \<open>Login\<close> does not refuse that identity at any instant afterwards; the entries of the
  other identities stay as they were.
\<close>

theorem Login_success_resets:
  assumes "Login D now mail password s = (None, w, s')"
  shows "tries s' mail = None \<and> delay s' mail = None \<and> (\<forall>now'. \<not> throttled now' mail s')
     \<and> (\<forall>m. m \<noteq> mail \<longrightarrow> tries s' m = tries s m \<and> delay s' m = delay s m)"
  using assms
  by (auto simp: Login_def Let_def throttled_def delay_at_def IsZero_def
           split: if_splits option.splits prod.splits)

theorem Login_success_resets_witness:
  "delay (loginDelay Second ''a@x.com'' example_session) ''a@x.com'' = Some (3 * Second) \<and>
   (\<exists>w s'. Login example_deps (10 * Second) ''a@x.com'' ''secret''
              (loginDelay Second ''a@x.com'' example_session) = (None, w, s') \<and>
           tries s' ''a@x.com'' = None \<and> delay s' ''a@x.com'' = None \<and>
           \<not> throttled (10 * Second) ''a@x.com'' s')"
proof -
  let ?s = "loginDelay Second ''a@x.com'' example_session"
  let ?L = "Login example_deps (10 * Second) ''a@x.com'' ''secret'' ?s"
  have d: "delay ?s ''a@x.com'' = Some (3 * Second)"
    by (simp add: loginDelay_def Let_def example_session_def tries_at_def int64_def Add_def
        Second_def)
  have db: "DB ?s ''a@x.com'' = Some example_user"
    by (simp add: loginDelay_def Let_def example_session_def)
  have sp: "0 < Second" by (simp add: Second_def)
  then have nt: "\<not> throttled (10 * Second) ''a@x.com'' ?s"
    by (simp add: throttled_def delay_at_def d Sub_pos)
  have "fst ?L = None"
    by (simp add: Login_def nt db example_user_def example_deps_def Let_def)
  then have L: "?L = (None, fst (snd ?L), snd (snd ?L))"
    by (metis prod.collapse)
  from Login_success_resets [OF L] d L show ?thesis by blast
qed

text \<open>
  Claim C7. A \<open>Login\<close> that gets past the guard and finds no row for the identity, and
  one that gets past the guard and finds a row whose password does not match, return the
  same error, "invalid email or password", and write no cookie. On one registry, at one
  instant and for one identity, the two cases give the same error (also when the guard
  refuses the login), the same cookies and the same store, tries and deadlines.
\<close>

theorem Login_failures_indistinguishable:
  assumes "DB s mail = None"
    and "DB s' mail' = Some u" and "\<not> CompareHashAndPassword D' (Password u) password'"
  shows "(\<not> throttled now mail s \<and> \<not> throttled now' mail' s' \<longrightarrow>
            fst (Login D now mail password s) = Some InvalidEmailOrPassword \<and>
            fst (Login D' now' mail' password' s') = Some InvalidEmailOrPassword \<and>
            fst (snd (Login D now mail password s)) = [] \<and>
            fst (snd (Login D' now' mail' password' s')) = []) \<and>
         (mail' = mail \<and> now' = now \<and>
          store s' = store s \<and> tries s' = tries s \<and> delay s' = delay s \<longrightarrow>
            fst (Login D' now' mail' password' s') = fst (Login D now mail password s) \<and>
            fst (snd (Login D' now' mail' password' s'))
              = fst (snd (Login D now mail password s)) \<and>
            store (snd (snd (Login D' now' mail' password' s')))
              = store (snd (snd (Login D now mail password s))) \<and>
            tries (snd (snd (Login D' now' mail' password' s')))
              = tries (snd (snd (Login D now mail password s))) \<and>
            delay (snd (snd (Login D' now' mail' password' s')))
              = delay (snd (snd (Login D now mail password s))))"
  using assms
  by (auto simp: Login_def throttled_def delay_at_def loginDelay_def tries_at_def Let_def)

theorem Login_failures_indistinguishable_witness:
  "DB (example_session\<lparr>DB := Map.empty\<rparr>) ''a@x.com'' = None \<and>
   DB example_session ''a@x.com'' = Some example_user \<and>
   \<not> CompareHashAndPassword example_deps (Password example_user) ''guess'' \<and>
   \<not> throttled 5 ''a@x.com'' example_session \<and>
   fst (Login example_deps 5 ''a@x.com'' ''secret'' (example_session\<lparr>DB := Map.empty\<rparr>))
     = Some InvalidEmailOrPassword \<and>
   fst (Login example_deps 5 ''a@x.com'' ''guess'' example_session)
     = Some InvalidEmailOrPassword \<and>
   delay (snd (snd (Login example_deps 5 ''a@x.com'' ''guess'' example_session)))
     = delay (snd (snd (Login example_deps 5 ''a@x.com'' ''secret''
                         (example_session\<lparr>DB := Map.empty\<rparr>))))"
proof -
  let ?s = "example_session\<lparr>DB := Map.empty\<rparr>"
  have h1: "DB ?s ''a@x.com'' = None" by simp
  have h2: "DB example_session ''a@x.com'' = Some example_user"
    by (simp add: example_session_def)
  have h3: "\<not> CompareHashAndPassword example_deps (Password example_user) ''guess''"
    by (simp add: example_deps_def)
  have nt: "\<not> throttled 5 ''a@x.com'' example_session"
    by (simp add: throttled_def delay_at_def example_session_def IsZero_def)
  then have nt': "\<not> throttled 5 ''a@x.com'' ?s"
    by (simp add: throttled_def delay_at_def)
  from Login_failures_indistinguishable [OF h1 h2 h3,
      of 5 5 example_deps "''secret''"] nt nt' h1 h2 h3
  show ?thesis by simp
qed

text \<open>
  Claim C10. When the deadline stored for an identity is later than the clock reading
  (a reading not before the zero Time), \<open>Login\<close> returns the error that asks to wait,
  with the time left, writes no cookie and returns the registry as it was: the sessions,
  the slices of tries and the deadlines of all identities are the same.
\<close>

theorem Login_throttled_unchanged:
  assumes "delay s mail = Some d" and "now < d" and "0 \<le> now"
  shows "Login D now mail password s = (Some (PleaseWait (Sub d now)), [], s)"
  using assms by (simp add: Login_def throttled_def delay_at_def IsZero_def Sub_pos)

theorem Login_throttled_unchanged_witness:
  "delay (loginDelay Second ''a@x.com'' example_session) ''a@x.com'' = Some (3 * Second) \<and>
   2 * Second < 3 * Second \<and> 0 \<le> 2 * Second \<and>
   Login example_deps (2 * Second) ''a@x.com'' ''secret''
       (loginDelay Second ''a@x.com'' example_session)
     = (Some (PleaseWait Second), [], loginDelay Second ''a@x.com'' example_session)"
proof -
  let ?s = "loginDelay Second ''a@x.com'' example_session"
  have d: "delay ?s ''a@x.com'' = Some (3 * Second)"
    by (simp add: loginDelay_def Let_def example_session_def tries_at_def int64_def Add_def
        Second_def)
  have lt: "2 * Second < 3 * Second" and nn: "0 \<le> 2 * Second" by (simp_all add: Second_def)
  have "Sub (3 * Second) (2 * Second) = Second"
    by (simp add: Sub_def Second_def maxDuration_def minDuration_def)
  with Login_throttled_unchanged [OF d lt nn, of example_deps "''secret''"] d lt nn
  show ?thesis by simp
qed

section \<open>Sessions\<close>

text \<open>
  Claim C5. \<open>AlreadyLoggedIn\<close>, for a request whose SID cookie holds the token, returns
  true exactly when the store has an entry at the token. Then the entry keeps its identity
  and gets the clock reading as its last activity, and the entries at all other tokens stay
  as they were. When the store has no entry at the token, the result is false and the
  registry is unchanged.
\<close>

theorem AlreadyLoggedIn_refreshes:
  "fst (AlreadyLoggedIn (Some tok) now s) = (tok \<in> dom (store s)) \<and>
   (\<forall>u. store s tok = Some u \<longrightarrow>
      store (snd (AlreadyLoggedIn (Some tok) now s)) tok
        = Some \<lparr>email = email u, lastSeen = now\<rparr>) \<and>
   (\<forall>k. k \<noteq> tok \<longrightarrow> store (snd (AlreadyLoggedIn (Some tok) now s)) k = store s k) \<and>
   (store s tok = None \<longrightarrow> snd (AlreadyLoggedIn (Some tok) now s) = s)"
  by (auto simp: AlreadyLoggedIn_def split: option.splits)

theorem AlreadyLoggedIn_refreshes_witness:
  "fst (AlreadyLoggedIn (Some ''t1'') 42 example_session) \<and>
   store (snd (AlreadyLoggedIn (Some ''t1'') 42 example_session)) ''t1''
     = Some \<lparr>email = ''a@x.com'', lastSeen = 42\<rparr> \<and>
   store (snd (AlreadyLoggedIn (Some ''t1'') 42 example_session)) ''t2''
     = store example_session ''t2'' \<and>
   \<not> fst (AlreadyLoggedIn (Some ''t9'') 42 example_session) \<and>
   snd (AlreadyLoggedIn (Some ''t9'') 42 example_session) = example_session"
proof -
  have p: "store example_session ''t1'' = Some \<lparr>email = ''a@x.com'', lastSeen = 0\<rparr>"
    by (simp add: example_session_def)
  have q: "store example_session ''t9'' = None"
    by (simp add: example_session_def)
  from AlreadyLoggedIn_refreshes [of "''t1''" 42 example_session]
    AlreadyLoggedIn_refreshes [of "''t9''" 42 example_session] p q
  show ?thesis by (auto simp: dom_def)
qed

text \<open>
  Claim C6. \<open>Logout\<close> with a cookie that holds the token returns (it does not panic),
  and the store it leaves has no entry at the token and the entries it had at all other
  tokens. When the store had no entry at the token, the registry is left unchanged. A
  second \<open>Logout\<close> with the same token, right after the first, leaves the registry that
  the first one left. (The sweep that \<open>Logout\<close> may start is a run of \<open>Clean\<close> of its
  own, and not part of what \<open>Logout\<close> does to the store.)
\<close>

theorem Logout_destroys_idempotent:
  "\<exists>w sweep s'. Logout aid (Some tok) now s = Inr (w, sweep, s') \<and>
      store s' tok = None \<and>
      (\<forall>k. k \<noteq> tok \<longrightarrow> store s' k = store s k) \<and>
      (store s tok = None \<longrightarrow> s' = s) \<and>
      (\<forall>aid' now'. \<exists>w' sweep'. Logout aid' (Some tok) now' s' = Inr (w', sweep', s'))"
  by (auto simp: Logout_def Let_def fun_upd_idem)

theorem Logout_destroys_idempotent_witness:
  "store example_session ''t9'' = None \<and>
   (\<exists>w sweep. Logout False (Some ''t9'') 42 example_session = Inr (w, sweep, example_session)) \<and>
   (\<exists>w sweep s'. Logout True (Some ''t1'') 42 example_session = Inr (w, sweep, s') \<and>
      store s' ''t1'' = None \<and> store s' ''t2'' = store example_session ''t2'')"
proof -
  have q: "store example_session ''t9'' = None"
    by (simp add: example_session_def)
  from Logout_destroys_idempotent [of False "''t9''" 42 example_session] q
  have a: "\<exists>w sweep. Logout False (Some ''t9'') 42 example_session = Inr (w, sweep, example_session)"
    by auto
  from Logout_destroys_idempotent [of True "''t1''" 42 example_session]
  obtain w sweep s' where "Logout True (Some ''t1'') 42 example_session = Inr (w, sweep, s')"
    and "store s' ''t1'' = None" and "\<forall>k. k \<noteq> ''t1'' \<longrightarrow> store s' k = store example_session k"
    by blast
  then have b: "\<exists>w sweep s'. Logout True (Some ''t1'') 42 example_session = Inr (w, sweep, s') \<and>
      store s' ''t1'' = None \<and> store s' ''t2'' = store example_session ''t2''"
    by auto
  from q a b show ?thesis by simp
qed

section \<open>The lock of the registry and the sweeps in flight\<close>

lemma Clean_loop_events_no_Lock: "Lock \<notin> set (Clean_loop_events now ks m)"
  by (induction ks arbitrary: m) (auto split: option.splits)

lemma unlocked_write_not_guarded:
  "Lock \<notin> set es \<Longrightarrow> \<not> guarded_from False (es @ [Write f])"
proof (induction es)
  case Nil
  then show ?case by simp
next
  case (Cons e es)
  then show ?case by (cases e) auto
qed


text \<open>
  Claim C9. \<open>AlreadyLoggedIn\<close> and \<open>loginDelay\<close> touch the fields of the registry only
  while they hold its lock. \<open>Clean\<close> does not: whatever the store, it reads and deletes
  entries and writes \<open>s.cleaned\<close> without the lock. \<open>Logout\<close> reads \<open>s.cleaned\<close> after
  it has released the lock, and \<open>Login\<close> reads \<open>s.delay\<close> before it takes it. A
  \<open>Logout\<close> starts a sweep when more than 30 seconds have passed since \<open>s.cleaned\<close>, and
  it does not write \<open>s.cleaned\<close>: of two calls of \<open>Logout\<close> one second apart, 31 and 32
  seconds after the last sweep, each starts a sweep, and two sweeps are in flight.
\<close>

theorem sweep_unlocked_and_repeated:
  "\<not> guarded (Clean_events ks now s) \<and>
   \<not> guarded (Logout_events (Some tok) now s) \<and>
   \<not> guarded (Login_events D now mail password s) \<and>
   guarded (AlreadyLoggedIn_events sid s) \<and>
   guarded loginDelay_events \<and>
   Logout False (Some ''t1'') (31 * Second) example_session
     = Inr ([deleteCookie ''SID'', deleteCookie ''UID'', deleteCookie ''CID''], True,
            example_session\<lparr>store := (store example_session)(''t1'' := None)\<rparr>) \<and>
   in_flight (serve_Logout False (Some ''t2'') (32 * Second)
               (serve_Logout False (Some ''t1'') (31 * Second)
                 \<lparr>registry = example_session, in_flight = 0\<rparr>)) = 2"
proof (intro conjI)
  show "\<not> guarded (Clean_events ks now s)"
    by (simp add: guarded_def Clean_events_def unlocked_write_not_guarded
        Clean_loop_events_no_Lock)
  show "\<not> guarded (Logout_events (Some tok) now s)"
    by (simp add: guarded_def Logout_events_def)
  show "\<not> guarded (Login_events D now mail password s)"
    by (simp add: guarded_def Login_events_def Let_def split: option.splits)
  show "guarded (AlreadyLoggedIn_events sid s)"
    by (simp add: guarded_def AlreadyLoggedIn_events_def split: option.splits)
  show "guarded loginDelay_events"
    by (simp add: guarded_def loginDelay_events_def)
  have c: "cleaned example_session = 0" by (simp add: example_session_def)
  have f1: "Sub (31 * Second) 0 > Second * 30" and f2: "Sub (32 * Second) 0 > Second * 30"
    by (simp_all add: Sub_def Second_def maxDuration_def minDuration_def)
  show "Logout False (Some ''t1'') (31 * Second) example_session
     = Inr ([deleteCookie ''SID'', deleteCookie ''UID'', deleteCookie ''CID''], True,
            example_session\<lparr>store := (store example_session)(''t1'' := None)\<rparr>)"
    using f1 by (simp add: Logout_def c)
  show "in_flight (serve_Logout False (Some ''t2'') (32 * Second)
               (serve_Logout False (Some ''t1'') (31 * Second)
                 \<lparr>registry = example_session, in_flight = 0\<rparr>)) = 2"
    using f1 f2 by (simp add: serve_Logout_def Logout_def c)
qed

section \<open>The handler CartAdd\<close>

text \<open>
  Claim C8. When the body of the request decodes to a product, \<open>CartAdd\<close> looks at the
  quantity, the amount converted by \<open>float32\<close>. If the quantity is zero, it answers with
  the error "Please insert a valid amount" (status 400), does not call \<open>Add\<close>, and the
  cart is as it was. If the quantity is not zero, positive or negative, it calls \<open>Add\<close>
  with the product and the quantity and answers with the cart that results.
\<close>

theorem CartAdd_quantity_check:
  "(float32 q = 0 \<longrightarrow>
      snd (CartAdd (Inr product) (q, err) float32 cart_Add cart) = cart \<and>
      last (fst (CartAdd (Inr product) (q, err) float32 cart_Add cart))
        = ResponseError 400 ''Please insert a valid amount'') \<and>
   (float32 q \<noteq> 0 \<longrightarrow>
      snd (CartAdd (Inr product) (q, err) float32 cart_Add cart)
        = cart_Add product (float32 q) cart \<and>
      last (fst (CartAdd (Inr product) (q, err) float32 cart_Add cart))
        = ResponseJSON 200 (cart_Add product (float32 q) cart))"
  by (simp add: CartAdd_def Let_def)

theorem CartAdd_quantity_check_witness:
  "CartAdd (Inr ''milk'') (0, None) real_of_int (\<lambda>p q c. (p, q) # c) []
     = ([ResponseError 400 ''Please insert a valid amount''], []) \<and>
   snd (CartAdd (Inr ''milk'') (3, None) real_of_int (\<lambda>p q c. (p, q) # c) [])
     = [(''milk'', 3)] \<and>
   snd (CartAdd (Inr ''milk'') (- 2, None) real_of_int (\<lambda>p q c. (p, q) # c) [])
     = [(''milk'', - 2)]"
proof -
  have z: "real_of_int 0 = 0" and p: "real_of_int 3 \<noteq> 0" and n: "real_of_int (- 2) \<noteq> 0"
    by simp_all
  have shape: "fst (CartAdd (Inr ''milk'') (0, None) real_of_int (\<lambda>p q c. (p, q) # c) [])
      = [last (fst (CartAdd (Inr ''milk'') (0, None) real_of_int (\<lambda>p q c. (p, q) # c) []))]"
    by (simp add: CartAdd_def)
  from CartAdd_quantity_check [of real_of_int 0 "''milk''" None "\<lambda>p q c. (p, q) # c" "[]"] z
  have a: "snd (CartAdd (Inr ''milk'') (0, None) real_of_int (\<lambda>p q c. (p, q) # c) []) = []"
    and b: "last (fst (CartAdd (Inr ''milk'') (0, None) real_of_int (\<lambda>p q c. (p, q) # c) []))
      = ResponseError 400 ''Please insert a valid amount''"
    by blast+
  from a b shape
  have zero: "CartAdd (Inr ''milk'') (0, None) real_of_int (\<lambda>p q c. (p, q) # c) []
     = ([ResponseError 400 ''Please insert a valid amount''], [])"
    by (metis prod.collapse)
  from CartAdd_quantity_check [of real_of_int 3 "''milk''" None "\<lambda>p q c. (p, q) # c" "[]"] p
  have three: "snd (CartAdd (Inr ''milk'') (3, None) real_of_int (\<lambda>p q c. (p, q) # c) [])
     = [(''milk'', 3)]" by simp
  from CartAdd_quantity_check [of real_of_int "- 2" "''milk''" None "\<lambda>p q c. (p, q) # c" "[]"] n
  have minus: "snd (CartAdd (Inr ''milk'') (- 2, None) real_of_int (\<lambda>p q c. (p, q) # c) [])
     = [(''milk'', - 2)]" by simp
  from zero three minus show ?thesis by simp
qed

section \<open>The cart aggregate\<close>

subsection \<open>Rounding to 24 significant bits\<close>








subsection \<open>The aggregates and the sums over the items\<close>











end
